theory Spec2Isabelle
  imports Main "HOL-Library.AList" "HOL-Library.Option_ord" "HOL-Library.Multiset"
begin

section \<open>The data controller of HAHA-NO-UR (src/data_controller/mongo.py)\<close>

text \<open>
  The module is a thin layer of coroutines over a MongoDB driver. Each coroutine is
  embedded here as a function on the contents of the collection it works on. The
  driver itself is not part of the repository: the few commands the module sends
  (an upserting \<open>$set\<close> update, \<open>$match\<close>/\<open>$sample\<close> aggregation, \<open>$elemMatch\<close>
  projection, \<open>$push\<close> with \<open>$each\<close>/\<open>$sort\<close>, positional \<open>$inc\<close> and \<open>$set\<close>) are
  written out below, each next to the call that uses it. The function that embeds a
  coroutine is that coroutine running alone: every \<open>await\<close> is a plain call. For
  \<open>add_to_user_album\<close> the steps between its awaits are defined too, so that several
  calls can be run interleaved (\<open>run_tasks\<close>). Where a name of the
  source is a constant of the library, the variable is renamed: \<open>count\<close> is \<open>cnt\<close> and
  \<open>card\<close> is \<open>crd\<close>.
\<close>

subsection \<open>Python values: dictionaries and exceptions\<close>

text \<open>
  A dictionary (and a stored document) is an association list with string keys:
  \<open>map_of\<close> reads it, \<open>AList.update\<close> is \<open>d[k] = v\<close> (in place when the key exists,
  appended otherwise), \<open>AList.delete\<close> removes a key.
\<close>

type_synonym 'v dict = "(string \<times> 'v) list"

datatype error =
    KeyError            \<comment> \<open>\<open>d[k]\<close> or \<open>del d[k]\<close> on a missing key\<close>
  | IndexError          \<comment> \<open>\<open>xs[0]\<close> on an empty list\<close>
  | AttributeError      \<comment> \<open>a method call on \<open>None\<close>\<close>
  | DuplicateKeyError   \<comment> \<open>\<open>insert_one\<close> with an \<open>_id\<close> already stored\<close>
  | OperationFailure    \<comment> \<open>a command the server rejects\<close>
  | OverflowError       \<comment> \<open>an integer that the driver cannot encode in 8 bytes\<close>

definition getitem :: "'v dict \<Rightarrow> string \<Rightarrow> error + 'v" where
  "getitem d k = (case map_of d k of None \<Rightarrow> Inl KeyError | Some v \<Rightarrow> Inr v)"

definition setitem :: "'v dict \<Rightarrow> string \<Rightarrow> 'v \<Rightarrow> 'v dict" where
  "setitem d k v = AList.update k v d"

definition delitem :: "'v dict \<Rightarrow> string \<Rightarrow> error + 'v dict" where
  "delitem d k = (case map_of d k of None \<Rightarrow> Inl KeyError | Some _ \<Rightarrow> Inr (AList.delete k d))"

text \<open>
  The positional operator of an update acts on the first array element (and a
  non-multi update on the first document) that satisfies the query.
\<close>

fun update_first :: "('a \<Rightarrow> bool) \<Rightarrow> ('a \<Rightarrow> 'a) \<Rightarrow> 'a list \<Rightarrow> 'a list" where
  "update_first P f [] = []"
| "update_first P f (x # xs) = (if P x then f x # xs else x # update_first P f xs)"

text \<open>
  \<open>$set\<close> with a document of top-level fields: every field of the update document is
  written over the stored field of that name, every other stored field is kept.
  \<open>AList.merge d upd\<close> is exactly that (\<open>map_of (AList.merge d upd) = map_of d ++ map_of upd\<close>).
  The order of the fields inside a stored document is the server's affair and no
  property below depends on it: documents are read through \<open>map_of\<close>.
\<close>

definition mongo_set :: "'v dict \<Rightarrow> 'v dict \<Rightarrow> 'v dict" where
  "mongo_set d upd = AList.merge d upd"

subsection \<open>CardController\<close>

text \<open>
  The \<open>cards\<close> collection is the list of its documents, each carrying its primary key in
  the field \<open>_id\<close>. The store never holds two documents with one \<open>_id\<close>.
\<close>

type_synonym 'v collection = "'v dict list"

definition has_key :: "'v \<Rightarrow> 'v dict \<Rightarrow> bool" where
  "has_key k d = (map_of d ''_id'' = Some k)"

definition unique_ids :: "'v collection \<Rightarrow> bool" where
  "unique_ids coll = distinct (map (\<lambda>d. map_of d ''_id'') coll)"

text \<open>
  \<open>collection.update({'_id': k}, {'$set': upd}, upsert=True)\<close>: the first document whose
  \<open>_id\<close> is \<open>k\<close> gets the fields of \<open>upd\<close>; when there is none, the document \<open>{'_id': k}\<close>
  of the query is created and gets them.
\<close>

definition update_set_upsert :: "'v collection \<Rightarrow> 'v \<Rightarrow> 'v dict \<Rightarrow> 'v collection" where
  "update_set_upsert coll k upd =
     (case find (has_key k) coll of
        None \<Rightarrow> coll @ [mongo_set [(''_id'', k)] upd]
      | Some _ \<Rightarrow> update_first (has_key k) (\<lambda>d. mongo_set d upd) coll)"

text \<open>
  \<open>upsert_card\<close> rebinds its parameter to a deep copy and edits the copy. To see what
  the caller's dictionary looks like afterwards, dictionaries live in a heap (a list of
  objects, a reference being an index below its length); \<open>copy.deepcopy\<close> allocates the
  copy at the end of the heap.
\<close>

type_synonym 'v heap = "'v dict list"

definition deepcopy :: "'v heap \<Rightarrow> nat \<Rightarrow> 'v heap \<times> nat" where
  "deepcopy h r = (h @ [h ! r], length h)"

definition upsert_card :: "'v heap \<Rightarrow> 'v collection \<Rightarrow> nat \<Rightarrow> error option \<times> 'v heap \<times> 'v collection" where
  "upsert_card h coll card_ref =
     (let (h1, copy_ref) = deepcopy h card_ref in
      case getitem (h1 ! copy_ref) ''id'' of
        Inl e \<Rightarrow> (Some e, h1, coll)
      | Inr k \<Rightarrow>
          (let h2 = h1[copy_ref := setitem (h1 ! copy_ref) ''_id'' k] in
           case delitem (h2 ! copy_ref) ''id'' of
             Inl e \<Rightarrow> (Some e, h2, coll)
           | Inr d \<Rightarrow>
               (let h3 = h2[copy_ref := d] in
                case getitem (h3 ! copy_ref) ''_id'' of
                  Inl e \<Rightarrow> (Some e, h3, coll)
                | Inr k' \<Rightarrow> (None, h3, update_set_upsert coll k' (h3 ! copy_ref)))))"

text \<open>
  \<open>$sample\<close> draws without replacement: \<open>rnd\<close> supplies the random choices, and a sample
  that asks for at least as many documents as there are returns them all. A negative
  size is rejected by the server.
\<close>

fun sample :: "(nat \<Rightarrow> nat) \<Rightarrow> nat \<Rightarrow> 'a list \<Rightarrow> 'a list" where
  "sample rnd 0 xs = []"
| "sample rnd (Suc n) xs =
     (if xs = [] then []
      else (let i = rnd n mod length xs
            in xs ! i # sample rnd n (take i xs @ drop (Suc i) xs)))"

text \<open>
  \<open>get_random_cards\<close>: the query language of \<open>$match\<close> is the store's, so the meaning of a
  filter document is the parameter \<open>matches\<close>. \<open>cursor.to_list(length=100)\<close> reads at most
  100 documents of the cursor.
\<close>

definition get_random_cards ::
  "('f \<Rightarrow> 'v dict \<Rightarrow> bool) \<Rightarrow> (nat \<Rightarrow> nat) \<Rightarrow> 'v collection \<Rightarrow> 'f \<Rightarrow> int \<Rightarrow> error + 'v dict list" where
  "get_random_cards matches rnd coll filters cnt =
     (if cnt < 0 then Inl OperationFailure
      else Inr (take 100 (sample rnd (nat cnt) (filter (matches filters) coll))))"

subsection \<open>UserController\<close>

text \<open>
  A user document is \<open>{'_id': user_id, 'album': [...]}\<close>; the \<open>users\<close> collection maps each
  stored \<open>_id\<close> to the album of its document. An album entry is a dictionary of integers.
  The clock is read through \<open>clock\<close>: its \<open>ticks\<close>-th reading is the value of
  \<open>int(round(time.time() * 1000))\<close> at that moment.
\<close>

type_synonym entry = "int dict"

record user_db =
  users :: "string \<rightharpoonup> entry list"
  clock :: "nat \<Rightarrow> int"
  ticks :: nat

text \<open>What a query returns for a user document: a dictionary with these values.\<close>

datatype uval = UId string | UAlbum "entry list"

definition has_id :: "int \<Rightarrow> entry \<Rightarrow> bool" where
  "has_id card_id e = (map_of e ''id'' = Some card_id)"

definition insert_user :: "user_db \<Rightarrow> string \<Rightarrow> error option \<times> user_db" where
  "insert_user st user_id =
     (case users st user_id of
        Some _ \<Rightarrow> (Some DuplicateKeyError, st)
      | None \<Rightarrow> (None, st\<lparr>users := (users st)(user_id \<mapsto> [])\<rparr>))"

definition delete_user :: "user_db \<Rightarrow> string \<Rightarrow> user_db" where
  "delete_user st user_id = st\<lparr>users := (users st)(user_id := None)\<rparr>"

definition find_user :: "user_db \<Rightarrow> string \<Rightarrow> uval dict option" where
  "find_user st user_id =
     (case users st user_id of
        None \<Rightarrow> None
      | Some a \<Rightarrow> Some [(''_id'', UId user_id), (''album'', UAlbum a)])"

definition get_user_album :: "user_db \<Rightarrow> string \<Rightarrow> error + uval" where
  "get_user_album st user_id =
     (case find_user st user_id of
        None \<Rightarrow> Inr (UAlbum [])
      | Some user_doc \<Rightarrow> if user_doc = [] then Inr (UAlbum []) else getitem user_doc ''album'')"

text \<open>
  The projection \<open>{'album': {'$elemMatch': {'id': card_id}}}\<close> of a user document: its
  \<open>_id\<close>, and the field \<open>album\<close> cut down to the first entry whose \<open>id\<close> is \<open>card_id\<close>; the
  field is left out when no entry matches.
\<close>

definition project_elemMatch :: "string \<Rightarrow> entry list \<Rightarrow> int \<Rightarrow> uval dict" where
  "project_elemMatch user_id a card_id =
     (''_id'', UId user_id) #
     (case find (has_id card_id) a of None \<Rightarrow> [] | Some e \<Rightarrow> [(''album'', UAlbum [e])])"

definition get_card_from_album :: "user_db \<Rightarrow> string \<Rightarrow> int \<Rightarrow> error + entry option" where
  "get_card_from_album st user_id card_id =
     (let search = (case users st user_id of
                      None \<Rightarrow> []
                    | Some a \<Rightarrow> [project_elemMatch user_id a card_id])
      in case search of
           [] \<Rightarrow> Inr None
         | d # _ \<Rightarrow>
             (case map_of d ''album'' of
                None \<Rightarrow> Inr None
              | Some (UId _) \<Rightarrow> Inl IndexError
              | Some (UAlbum []) \<Rightarrow> Inl IndexError
              | Some (UAlbum (e # _)) \<Rightarrow> Inr (Some e)))"

definition user_has_card :: "user_db \<Rightarrow> string \<Rightarrow> int \<Rightarrow> error + bool" where
  "user_has_card st user_id card_id =
     (let search = (case users st user_id of
                      None \<Rightarrow> None
                    | Some a \<Rightarrow> Some (project_elemMatch user_id a card_id))
      in case search of
           None \<Rightarrow> Inl AttributeError
         | Some d \<Rightarrow> Inr (length (map fst d) > 1))"

text \<open>
  The two updates of an album. \<open>$push\<close> with \<open>$each\<close> and \<open>$sort: {'id': 1}\<close> appends the
  entry and then sorts the whole array by \<open>id\<close> (a missing \<open>id\<close> sorts first). An update
  whose query is \<open>{'_id': user_id, 'album.id': card_id}\<close> applies its positional operator to
  the first entry whose \<open>id\<close> is \<open>card_id\<close>, and does nothing when no document matches.
\<close>

definition push_sorted :: "user_db \<Rightarrow> string \<Rightarrow> entry \<Rightarrow> user_db" where
  "push_sorted st user_id new_card =
     (case users st user_id of
        None \<Rightarrow> st
      | Some a \<Rightarrow>
          st\<lparr>users := (users st)(user_id \<mapsto> sort_key (\<lambda>e. map_of e ''id'') (a @ [new_card]))\<rparr>)"

definition update_positional :: "user_db \<Rightarrow> string \<Rightarrow> int \<Rightarrow> (entry \<Rightarrow> entry) \<Rightarrow> user_db" where
  "update_positional st user_id card_id f =
     (case users st user_id of
        None \<Rightarrow> st
      | Some a \<Rightarrow> st\<lparr>users := (users st)(user_id \<mapsto> update_first (has_id card_id) f a)\<rparr>)"

text \<open>\<open>$inc\<close> adds to a field, creating it with the increment when it is missing.\<close>

definition mongo_inc :: "string \<Rightarrow> int \<Rightarrow> entry \<Rightarrow> entry" where
  "mongo_inc k n e = AList.update k ((case map_of e k of None \<Rightarrow> 0 | Some v \<Rightarrow> v) + n) e"

text \<open>
  The body of the loop of \<open>add_to_user_album\<close>, for one card, has two parts, each ending
  in one awaited command: the check (line 213: \<open>card['_id']\<close> and the \<open>find_one\<close> of
  \<open>_user_has_card\<close>) and the write (lines 214 to 240: the \<open>$push\<close> when the check found no
  entry, the \<open>$inc\<close> otherwise).
\<close>

definition check_card :: "user_db \<Rightarrow> string \<Rightarrow> int dict \<Rightarrow> error + (int \<times> bool)" where
  "check_card st user_id crd =
     (case getitem crd ''_id'' of
        Inl e \<Rightarrow> Inl e
      | Inr card_id \<Rightarrow>
          (case user_has_card st user_id card_id of
             Inl e \<Rightarrow> Inl e
           | Inr has_card \<Rightarrow> Inr (card_id, has_card)))"

definition write_card :: "user_db \<Rightarrow> string \<Rightarrow> int \<Rightarrow> bool \<Rightarrow> bool \<Rightarrow> user_db" where
  "write_card st user_id card_id has_card idolized =
     (if \<not> has_card
      then (let new_card = [(''id'', card_id),
                            (''unidolized_count'', 1),
                            (''idolized_count'', 0),
                            (''time_aquired'', clock st (ticks st))];
                st1 = st\<lparr>ticks := Suc (ticks st)\<rparr>
            in push_sorted st1 user_id new_card)
      else if idolized
      then update_positional st user_id card_id (mongo_inc ''idolized_count'' 1)
      else update_positional st user_id card_id (mongo_inc ''unidolized_count'' 1))"

text \<open>
  One call of \<open>add_to_user_album\<close> running alone: for each card the check and then the
  write, with nothing in between.
\<close>

definition add_card :: "user_db \<Rightarrow> string \<Rightarrow> int dict \<Rightarrow> bool \<Rightarrow> error option \<times> user_db" where
  "add_card st user_id crd idolized =
     (case check_card st user_id crd of
        Inl e \<Rightarrow> (Some e, st)
      | Inr (card_id, has_card) \<Rightarrow> (None, write_card st user_id card_id has_card idolized))"

fun add_to_user_album :: "user_db \<Rightarrow> string \<Rightarrow> int dict list \<Rightarrow> bool \<Rightarrow> error option \<times> user_db" where
  "add_to_user_album st user_id [] idolized = (None, st)"
| "add_to_user_album st user_id (crd # new_cards) idolized =
     (case add_card st user_id crd idolized of
        (Some e, st1) \<Rightarrow> (Some e, st1)
      | (None, st1) \<Rightarrow> add_to_user_album st1 user_id new_cards idolized)"

text \<open>
  Several calls of \<open>add_to_user_album\<close> in flight at once. The event loop switches
  between coroutines only where one awaits, so a call advances in steps that each
  send one command: the check of its next card, or the write that its last check
  decided on. \<open>t_checked\<close> holds the outcome of a check whose write has not been sent
  yet. A schedule lists which call takes the next step.
\<close>

record add_task =
  t_user :: string
  t_cards :: "int dict list"
  t_idolized :: bool
  t_checked :: "(int \<times> bool) option"
  t_error :: "error option"

definition new_task :: "string \<Rightarrow> int dict list \<Rightarrow> bool \<Rightarrow> add_task" where
  "new_task user_id new_cards idolized =
     \<lparr>t_user = user_id, t_cards = new_cards, t_idolized = idolized,
      t_checked = None, t_error = None\<rparr>"

definition task_step :: "user_db \<Rightarrow> add_task \<Rightarrow> user_db \<times> add_task" where
  "task_step st t =
     (if t_error t \<noteq> None then (st, t)
      else case t_checked t of
             None \<Rightarrow>
               (case t_cards t of
                  [] \<Rightarrow> (st, t)
                | crd # _ \<Rightarrow>
                    (case check_card st (t_user t) crd of
                       Inl e \<Rightarrow> (st, t\<lparr>t_error := Some e\<rparr>)
                     | Inr r \<Rightarrow> (st, t\<lparr>t_checked := Some r\<rparr>)))
           | Some (card_id, has_card) \<Rightarrow>
               (write_card st (t_user t) card_id has_card (t_idolized t),
                t\<lparr>t_cards := tl (t_cards t), t_checked := None\<rparr>))"

fun run_tasks :: "nat list \<Rightarrow> user_db \<times> add_task list \<Rightarrow> user_db \<times> add_task list" where
  "run_tasks [] c = c"
| "run_tasks (i # sched) (st, ts) =
     (if i < length ts
      then (let (st1, t1) = task_step st (ts ! i) in run_tasks sched (st1, ts[i := t1]))
      else run_tasks sched (st, ts))"

text \<open>
  \<open>remove_from_user_album\<close>. The driver encodes the integers of the \<open>$set\<close> document in
  at most 8 bytes and raises \<open>OverflowError\<close>, before anything is sent, for one that
  does not fit.
\<close>

definition fits_int64 :: "int \<Rightarrow> bool" where
  "fits_int64 v = (- (2 ^ 63) \<le> v \<and> v < 2 ^ 63)"

definition remove_from_user_album ::
  "user_db \<Rightarrow> string \<Rightarrow> int \<Rightarrow> bool \<Rightarrow> int \<Rightarrow> (error + bool) \<times> user_db" where
  "remove_from_user_album st user_id card_id idolized cnt =
     (case get_card_from_album st user_id card_id of
        Inl e \<Rightarrow> (Inl e, st)
      | Inr None \<Rightarrow> (Inr False, st)
      | Inr (Some crd) \<Rightarrow>
          if crd = [] then (Inr False, st)
          else
            (case getitem crd ''unidolized_count'' of
               Inl e \<Rightarrow> (Inl e, st)
             | Inr unidolized_count \<Rightarrow>
                 (case getitem crd ''idolized_count'' of
                    Inl e \<Rightarrow> (Inl e, st)
                  | Inr idolized_count \<Rightarrow>
                      (let new_unidolized_count = (if idolized then unidolized_count
                                                   else unidolized_count - cnt);
                           new_idolized_count = (if idolized then idolized_count - cnt
                                                 else idolized_count)
                       in if fits_int64 new_unidolized_count \<and> fits_int64 new_idolized_count
                          then (Inr True,
                                update_positional st user_id card_id
                                  (\<lambda>e. mongo_set e [(''unidolized_count'', new_unidolized_count),
                                                     (''idolized_count'', new_idolized_count)]))
                          else (Inl OverflowError, st)))))"

subsection \<open>Stores used in the examples\<close>

definition entry5 :: entry where
  "entry5 = [(''id'', 5), (''unidolized_count'', 2), (''idolized_count'', 0), (''time_aquired'', 990)]"

definition db_u1 :: user_db where
  "db_u1 = \<lparr>users = [''u1'' \<mapsto> [entry5]], clock = (\<lambda>n. 1000 + int n), ticks = 0\<rparr>"



definition db_fresh :: user_db where
  "db_fresh = \<lparr>users = [''u1'' \<mapsto> []], clock = (\<lambda>n. 1000 + int n), ticks = 0\<rparr>"

definition heap_ex :: "int heap" where
  "heap_ex = [[(''id'', 1), (''rarity'', 10), (''attribute'', 7)], [(''id'', 1), (''rarity'', 20)]]"

definition catalog_ex :: "int collection" where
  "catalog_ex = [[(''_id'', 1), (''attribute'', 7), (''rarity'', 10)]]"

definition catalog101 :: "int collection" where
  "catalog101 = map (\<lambda>i. [(''_id'', int i)]) [0..<101]"

text \<open>What identifies an entry and when it was first acquired.\<close>

definition stamp :: "entry \<Rightarrow> int option \<times> int option" where
  "stamp e = (map_of e ''id'', map_of e ''time_aquired'')"

text \<open>An entry that carries both of its counters.\<close>

definition has_counters :: "entry \<Rightarrow> bool" where
  "has_counters e = (map_of e ''unidolized_count'' \<noteq> None \<and> map_of e ''idolized_count'' \<noteq> None)"

section \<open>Properties\<close>

subsection \<open>What the queries of the user controller return\<close>

lemma user_has_card_None: "users st uid = None \<Longrightarrow> user_has_card st uid cid = Inl AttributeError"
  by (simp add: user_has_card_def)

lemma user_has_card_Some:
  "users st uid = Some a \<Longrightarrow> user_has_card st uid cid = Inr (find (has_id cid) a \<noteq> None)"
  by (auto simp: user_has_card_def project_elemMatch_def split: option.splits)


lemma get_card_from_album_Some:
  "users st uid = Some a \<Longrightarrow> get_card_from_album st uid cid = Inr (find (has_id cid) a)"
  by (auto simp: get_card_from_album_def project_elemMatch_def split: option.splits)

lemma find_has_id_None: "find (has_id cid) a = None \<longleftrightarrow> (\<forall>e\<in>set a. map_of e ''id'' \<noteq> Some cid)"
  by (auto simp: find_None_iff has_id_def)

lemma length_update_first: "length (update_first P f xs) = length xs"
  by (induction xs) auto

lemma update_first_find:
  "find P xs = Some x \<Longrightarrow> update_first P f xs = update_first P (\<lambda>_. f x) xs"
  by (induction xs) (auto split: if_splits)



lemma map_update_first:
  "(\<And>x. P x \<Longrightarrow> g (f x) = g x) \<Longrightarrow> map g (update_first P f xs) = map g xs"
  by (induction xs) auto

lemma filter_update_first:
  "filter P xs = [x] \<Longrightarrow> P (f x) \<Longrightarrow> filter P (update_first P f xs) = [f x]"
proof (induction xs)
  case Nil
  then show ?case by simp
next
  case (Cons y ys)
  show ?case
  proof (cases "P y")
    case True
    with Cons.prems show ?thesis by simp
  next
    case False
    with Cons show ?thesis by simp
  qed
qed

lemma mongo_inc_same: "map_of (mongo_inc k n e) k = Some ((case map_of e k of None \<Rightarrow> 0 | Some v \<Rightarrow> v) + n)"
  by (simp add: mongo_inc_def update_conv')

lemma mongo_inc_other: "k' \<noteq> k \<Longrightarrow> map_of (mongo_inc k n e) k' = map_of e k'"
  by (simp add: mongo_inc_def update_conv')

lemma mongo_set_lookup: "map_of (mongo_set d upd) = map_of d ++ map_of upd"
  by (simp add: mongo_set_def merge_conv')

lemma add_card_new:
  assumes "users st uid = Some a" and "map_of crd ''_id'' = Some cid"
      and "find (has_id cid) a = None"
  shows "add_card st uid crd idolized =
           (None, st\<lparr>ticks := Suc (ticks st),
                     users := (users st)(uid \<mapsto> sort_key (\<lambda>e. map_of e ''id'')
                        (a @ [[(''id'', cid), (''unidolized_count'', 1), (''idolized_count'', 0),
                               (''time_aquired'', clock st (ticks st))]]))\<rparr>)"
  using assms by (simp add: add_card_def check_card_def write_card_def getitem_def user_has_card_Some push_sorted_def)

lemma add_card_old:
  assumes "users st uid = Some a" and "map_of crd ''_id'' = Some cid"
      and "find (has_id cid) a = Some e"
  shows "add_card st uid crd idolized =
           (None, st\<lparr>users := (users st)(uid \<mapsto> update_first (has_id cid)
                        (mongo_inc (if idolized then ''idolized_count'' else ''unidolized_count'') 1) a)\<rparr>)"
  using assms by (simp add: add_card_def check_card_def write_card_def getitem_def user_has_card_Some update_positional_def)

lemma add_to_user_album_append:
  "add_to_user_album st uid (xs @ ys) idolized =
     (case add_to_user_album st uid xs idolized of
        (Some e, st1) \<Rightarrow> (Some e, st1)
      | (None, st1) \<Rightarrow> add_to_user_album st1 uid ys idolized)"
  by (induction xs arbitrary: st) (auto split: prod.splits option.splits)

lemma sort_key_ids:
  "mset (map g (sort_key f xs)) = mset (map g xs)"
  by (metis mset_map mset_sort)



lemma find_filter: "find P xs = None \<Longrightarrow> filter P xs = []"
  by (induction xs) (auto split: if_splits)


subsection \<open>Reading an album\<close>

text \<open>
  Claim C8. \<open>get_user_album\<close> returns the album of the stored user document, and the
  empty list when no document has that id; so it answers the same for a user that
  does not exist and for that user right after \<open>insert_user\<close> created it.
\<close>

theorem get_user_album_C8:
  "get_user_album st user_id = Inr (UAlbum (case users st user_id of None \<Rightarrow> [] | Some a \<Rightarrow> a))
   \<and> (users st user_id = None \<longrightarrow>
        get_user_album (snd (insert_user st user_id)) user_id = get_user_album st user_id)"
  by (auto simp: get_user_album_def find_user_def getitem_def insert_user_def split: option.splits)

theorem get_user_album_C8_witness:
  "users db_u1 ''u2'' = None
   \<and> get_user_album db_u1 ''u2'' = Inr (UAlbum [])
   \<and> get_user_album (snd (insert_user db_u1 ''u2'')) ''u2'' = Inr (UAlbum [])
   \<and> get_user_album db_u1 ''u1'' = Inr (UAlbum [entry5])"
  using get_user_album_C8 [of db_u1 "''u2''"] get_user_album_C8 [of db_u1 "''u1''"]
  by (simp add: db_u1_def)

subsection \<open>Entries keep their counters\<close>

text \<open>
  Every entry that \<open>add_to_user_album\<close> creates has both counters, and neither it nor
  \<open>remove_from_user_album\<close> ever takes one away: an album whose entries all carry both
  counters stays so.
\<close>

lemma list_all_update_first:
  "(\<And>x. P x \<Longrightarrow> P (f x)) \<Longrightarrow> list_all P xs \<Longrightarrow> list_all P (update_first Q f xs)"
  by (induction xs) auto

lemma mongo_inc_defined: "map_of e f \<noteq> None \<Longrightarrow> map_of (mongo_inc k n e) f \<noteq> None"
  by (cases "f = k") (simp_all add: mongo_inc_same mongo_inc_other)

lemma has_counters_inc: "has_counters e \<Longrightarrow> has_counters (mongo_inc k n e)"
  by (simp add: has_counters_def mongo_inc_defined)

lemma has_counters_set: "has_counters e \<Longrightarrow> has_counters (mongo_set e upd)"
  by (auto simp: has_counters_def mongo_set_lookup map_add_def split: option.splits)

lemma add_card_counters:
  assumes "users st uid = Some a" and "list_all has_counters a"
  shows "\<exists>a'. users (snd (add_card st uid crd idolized)) uid = Some a' \<and> list_all has_counters a'"
proof (cases "map_of crd ''_id''")
  case None
  with assms show ?thesis
    by (simp add: add_card_def check_card_def write_card_def getitem_def)
next
  case (Some cid)
  show ?thesis
  proof (cases "find (has_id cid) a")
    case None
    from assms(2) show ?thesis
      by (simp add: add_card_new [OF assms(1) Some None] list_all_iff has_counters_def)
  next
    case (Some e)
    from assms(2) have "list_all has_counters
        (update_first (has_id cid)
           (mongo_inc (if idolized then ''idolized_count'' else ''unidolized_count'') 1) a)"
      by (rule list_all_update_first [rotated]) (rule has_counters_inc)
    then show ?thesis
      by (simp add: add_card_old [OF assms(1) \<open>map_of crd ''_id'' = Some cid\<close> Some])
  qed
qed

lemma add_to_user_album_counters:
  "users st uid = Some a \<Longrightarrow> list_all has_counters a \<Longrightarrow>
   \<exists>a'. users (snd (add_to_user_album st uid cards idolized)) uid = Some a'
        \<and> list_all has_counters a'"
proof (induction cards arbitrary: st a)
  case Nil
  then show ?case by simp
next
  case (Cons crd cards)
  from add_card_counters [OF Cons.prems, of crd idolized]
  obtain a1 where a1: "users (snd (add_card st uid crd idolized)) uid = Some a1"
    "list_all has_counters a1"
    by blast
  show ?case
  proof (cases "add_card st uid crd idolized")
    case (Pair r st1)
    show ?thesis
    proof (cases r)
      case None
      with Pair a1 Cons.IH [of st1 a1] show ?thesis by simp
    next
      case (Some err)
      with Pair a1 show ?thesis by simp
    qed
  qed
qed

lemma remove_from_user_album_counters:
  assumes "users st uid = Some a" and "list_all has_counters a"
  shows "\<exists>a'. users (snd (remove_from_user_album st uid cid idolized cnt)) uid = Some a'
              \<and> list_all has_counters a'"
proof (cases "find (has_id cid) a")
  case None
  with assms show ?thesis
    by (simp add: remove_from_user_album_def get_card_from_album_Some)
next
  case (Some e)
  have upd: "list_all has_counters (update_first (has_id cid) (\<lambda>x. mongo_set x upd) a)" for upd
    using assms(2) by (rule list_all_update_first [rotated]) (rule has_counters_set)
  from Some assms show ?thesis
    by (auto simp: remove_from_user_album_def get_card_from_album_Some getitem_def
        update_positional_def Let_def upd split: option.splits)
qed

subsection \<open>Removing from an album\<close>





lemma remove_from_user_album_overflow:
  assumes "users st user_id = Some a"
      and "find (has_id card_id) a = Some e"
      and "map_of e ''unidolized_count'' = Some u"
      and "map_of e ''idolized_count'' = Some i"
      and "\<not> fits_int64 ((if idolized then i else u) - cnt)"
  shows "remove_from_user_album st user_id card_id idolized cnt = (Inl OverflowError, st)"
proof -
  have "e \<noteq> []"
    using assms(3) by auto
  with assms show ?thesis
    by (simp add: remove_from_user_album_def get_card_from_album_Some getitem_def Let_def
        split: if_splits)
qed


subsection \<open>Adding to an album\<close>

text \<open>
  Claim C9. For a user id without a document and a list with a first card,
  \<open>add_to_user_album\<close> stops at that card with an exception and writes nothing: the
  \<open>AttributeError\<close> of \<open>search.keys()\<close> on \<open>None\<close> in \<open>_user_has_card\<close> when the card
  carries its \<open>_id\<close> (a \<open>KeyError\<close> of \<open>card['_id']\<close> otherwise).
\<close>

theorem add_unknown_user_C9:
  assumes "users st user_id = None"
  shows "add_to_user_album st user_id (crd # new_cards) idolized =
           (Some (case map_of crd ''_id'' of None \<Rightarrow> KeyError | Some _ \<Rightarrow> AttributeError), st)"
  using assms
  by (simp add: add_card_def check_card_def write_card_def getitem_def user_has_card_None split: option.splits)

theorem add_unknown_user_C9_witness:
  "users db_u1 ''u2'' = None
   \<and> add_to_user_album db_u1 ''u2'' [[(''_id'', 5)]] False = (Some AttributeError, db_u1)"
  using add_unknown_user_C9 [of db_u1 "''u2''" "[(''_id'', 5)]" "[]" False]
  by (simp add: db_u1_def)

text \<open>
  Claim C3. When the loop reaches a card (after the cards \<open>pre\<close>, in the store \<open>st1\<close>)
  whose id has no entry in the existing user's album, the album \<open>a'\<close> it goes on with
  holds the old entries and one new entry with \<open>unidolized_count = 1\<close>,
  \<open>idolized_count = 0\<close> (for either value of \<open>idolized\<close>) and the clock's reading as its
  timestamp, and \<open>a'\<close> is sorted ascending by \<open>id\<close>.
\<close>

theorem add_new_card_C3:
  assumes "add_to_user_album st user_id pre idolized = (None, st1)"
      and "users st1 user_id = Some a"
      and "map_of crd ''_id'' = Some card_id"
      and "\<forall>e\<in>set a. map_of e ''id'' \<noteq> Some card_id"
  shows "\<exists>a'. add_to_user_album st user_id (pre @ crd # post) idolized =
             add_to_user_album
               (st1\<lparr>ticks := Suc (ticks st1), users := (users st1)(user_id \<mapsto> a')\<rparr>)
               user_id post idolized
           \<and> mset a' = mset a + {#[(''id'', card_id), (''unidolized_count'', 1),
                                    (''idolized_count'', 0),
                                    (''time_aquired'', clock st1 (ticks st1))]#}
           \<and> sorted (map (\<lambda>e. map_of e ''id'') a')"
proof -
  let ?new = "[(''id'', card_id), (''unidolized_count'', 1), (''idolized_count'', 0),
               (''time_aquired'', clock st1 (ticks st1))]"
  let ?a' = "sort_key (\<lambda>e. map_of e ''id'') (a @ [?new])"
  from assms(4) have "find (has_id card_id) a = None"
    by (simp add: find_has_id_None)
  with assms(2,3) have step: "add_card st1 user_id crd idolized =
      (None, st1\<lparr>ticks := Suc (ticks st1), users := (users st1)(user_id \<mapsto> ?a')\<rparr>)"
    by (rule add_card_new)
  have "add_to_user_album st user_id (pre @ crd # post) idolized =
          add_to_user_album
            (st1\<lparr>ticks := Suc (ticks st1), users := (users st1)(user_id \<mapsto> ?a')\<rparr>)
            user_id post idolized"
    by (simp add: add_to_user_album_append assms(1) step)
  moreover have "mset ?a' = mset a + {#?new#}"
    by simp
  moreover have "sorted (map (\<lambda>e. map_of e ''id'') ?a')"
    by (rule sorted_sort_key)
  ultimately show ?thesis
    by blast
qed

theorem add_new_card_C3_witness:
  "\<exists>a'. add_to_user_album db_u1 ''u1'' [[(''_id'', 3)]] True =
           (None, db_u1\<lparr>ticks := 1, users := (users db_u1)(''u1'' \<mapsto> a')\<rparr>)
        \<and> mset a' = {#entry5, [(''id'', 3), (''unidolized_count'', 1), (''idolized_count'', 0),
                               (''time_aquired'', 1000)]#}
        \<and> sorted (map (\<lambda>e. map_of e ''id'') a')"
proof -
  have h1: "add_to_user_album db_u1 ''u1'' [] True = (None, db_u1)"
    by simp
  have h2: "users db_u1 ''u1'' = Some [entry5]"
    by (simp add: db_u1_def)
  have h3: "map_of [(''_id'', 3::int)] ''_id'' = Some 3"
    by simp
  have h4: "\<forall>e\<in>set [entry5]. map_of e ''id'' \<noteq> Some 3"
    by (simp add: entry5_def)
  from add_new_card_C3 [OF h1 h2 h3 h4, of "[]"]
  show ?thesis
    by (auto simp: db_u1_def)
qed

subsection \<open>One entry per card\<close>







text \<open>
  A call that takes all the steps is \<open>add_to_user_album\<close>: with one call in
  flight, two steps per card give the store and the exception of the function.
\<close>

lemma run_tasks_failed:
  "t_error t \<noteq> None \<Longrightarrow> run_tasks (replicate k 0) (st, [t]) = (st, [t])"
  by (induction k) (simp_all add: task_step_def)

lemma run_tasks_alone:
  "\<exists>t'. run_tasks (replicate (2 * length new_cards) 0) (st, [new_task user_id new_cards idolized])
          = (snd (add_to_user_album st user_id new_cards idolized), [t'])
        \<and> t_error t' = fst (add_to_user_album st user_id new_cards idolized)"
proof (induction new_cards arbitrary: st)
  case Nil
  then show ?case
    by (simp add: new_task_def)
next
  case (Cons crd new_cards)
  let ?t = "new_task user_id (crd # new_cards) idolized"
  have two: "replicate (2 * length (crd # new_cards)) (0::nat) =
               0 # 0 # replicate (2 * length new_cards) 0"
    by simp
  show ?case
  proof (cases "check_card st user_id crd")
    case (Inl e)
    then have s1: "task_step st ?t = (st, ?t\<lparr>t_error := Some e\<rparr>)"
      by (simp add: task_step_def new_task_def)
    have "run_tasks (0 # replicate (2 * length new_cards) 0) (st, [?t\<lparr>t_error := Some e\<rparr>])
            = (st, [?t\<lparr>t_error := Some e\<rparr>])"
      using run_tasks_failed [of "?t\<lparr>t_error := Some e\<rparr>" "Suc (2 * length new_cards)" st]
      by simp
    with s1 Inl show ?thesis
      by (simp only: two) (simp add: add_card_def)
  next
    case (Inr r)
    obtain card_id has_card where r: "r = (card_id, has_card)"
      by (cases r)
    let ?st1 = "write_card st user_id card_id has_card idolized"
    from Inr r have s1: "task_step st ?t = (st, ?t\<lparr>t_checked := Some (card_id, has_card)\<rparr>)"
      by (simp add: task_step_def new_task_def)
    have s2: "task_step st (?t\<lparr>t_checked := Some (card_id, has_card)\<rparr>) =
                (?st1, new_task user_id new_cards idolized)"
      by (simp add: task_step_def new_task_def)
    from Inr r have seq: "add_to_user_album st user_id (crd # new_cards) idolized =
                            add_to_user_album ?st1 user_id new_cards idolized"
      by (simp add: add_card_def)
    from Cons.IH [of ?st1] s1 s2 show ?thesis
      by (simp only: two seq) simp
  qed
qed




subsection \<open>The fields of an entry\<close>

lemma add_card_stamps:
  assumes "users st uid = Some a"
  shows "\<exists>a'. users (snd (add_card st uid crd idolized)) uid = Some a'
              \<and> mset (map stamp a) \<subseteq># mset (map stamp a')"
proof (cases "map_of crd ''_id''")
  case None
  with assms show ?thesis
    by (simp add: add_card_def check_card_def write_card_def getitem_def)
next
  case (Some cid)
  show ?thesis
  proof (cases "find (has_id cid) a")
    case None
    show ?thesis
      by (simp add: add_card_new [OF assms Some None] sort_key_ids)
  next
    case (Some e)
    have "map stamp (update_first (has_id cid) (mongo_inc k 1) a) = map stamp a"
      if "k \<noteq> ''id''" and "k \<noteq> ''time_aquired''" for k
      by (rule map_update_first) (simp add: stamp_def mongo_inc_other that [symmetric])
    then have "mset (map stamp (update_first (has_id cid) (mongo_inc k 1) a)) = mset (map stamp a)"
      if "k \<noteq> ''id''" and "k \<noteq> ''time_aquired''" for k
      using that by simp
    from this [of "''idolized_count''"] this [of "''unidolized_count''"]
    show ?thesis
      by (simp add: add_card_old [OF assms \<open>map_of crd ''_id'' = Some cid\<close> Some])
  qed
qed

lemma add_to_user_album_stamps:
  "users st uid = Some a \<Longrightarrow>
   \<exists>a'. users (snd (add_to_user_album st uid cards idolized)) uid = Some a'
        \<and> mset (map stamp a) \<subseteq># mset (map stamp a')"
proof (induction cards arbitrary: st a)
  case Nil
  then show ?case by simp
next
  case (Cons crd cards)
  from add_card_stamps [OF Cons.prems, of crd idolized]
  obtain a1 where a1: "users (snd (add_card st uid crd idolized)) uid = Some a1"
    "mset (map stamp a) \<subseteq># mset (map stamp a1)"
    by blast
  show ?case
  proof (cases "add_card st uid crd idolized")
    case (Pair r st1)
    show ?thesis
    proof (cases r)
      case None
      with Pair a1 have "users st1 uid = Some a1"
        by simp
      from Cons.IH [OF this] obtain a' where
        "users (snd (add_to_user_album st1 uid cards idolized)) uid = Some a'"
        "mset (map stamp a1) \<subseteq># mset (map stamp a')"
        by blast
      with a1(2) Pair None show ?thesis
        by (auto intro: subset_mset.order_trans)
    next
      case (Some err)
      with Pair a1 show ?thesis by simp
    qed
  qed
qed

text \<open>
  Claim C6, as the code has it. The entry that \<open>add_to_user_album\<close> creates has exactly
  the fields \<open>id\<close>, \<open>unidolized_count\<close>, \<open>idolized_count\<close> and \<open>time_aquired\<close> (the key is
  spelled so in the source), the last one holding the clock's reading in milliseconds.
  No later call changes it: each entry of the album before a call is still there
  after it with the same \<open>id\<close> and the same \<open>time_aquired\<close>.
\<close>

theorem entry_fields_C6:
  "(users st user_id = Some a
      \<and> map_of crd ''_id'' = Some card_id
      \<and> find (has_id card_id) a = None
    \<longrightarrow> (\<exists>new a'. add_to_user_album st user_id [crd] idolized =
             (None, st\<lparr>ticks := Suc (ticks st), users := (users st)(user_id \<mapsto> a')\<rparr>)
           \<and> mset a' = mset a + {#new#}
           \<and> map fst new = [''id'', ''unidolized_count'', ''idolized_count'', ''time_aquired'']
           \<and> map_of new ''id'' = Some card_id
           \<and> map_of new ''time_aquired'' = Some (clock st (ticks st))))
   \<and> (users st user_id = Some a
    \<longrightarrow> (\<exists>a'. users (snd (add_to_user_album st user_id new_cards idolized)) user_id = Some a'
           \<and> mset (map stamp a) \<subseteq># mset (map stamp a')))"
proof (intro conjI impI)
  assume h: "users st user_id = Some a
      \<and> map_of crd ''_id'' = Some card_id
      \<and> find (has_id card_id) a = None"
  let ?new = "[(''id'', card_id), (''unidolized_count'', 1), (''idolized_count'', 0),
               (''time_aquired'', clock st (ticks st))]"
  let ?a' = "sort_key (\<lambda>e. map_of e ''id'') (a @ [?new])"
  from h have u: "users st user_id = Some a" and c: "map_of crd ''_id'' = Some card_id"
    and n: "find (has_id card_id) a = None"
    by simp_all
  have run: "add_to_user_album st user_id [crd] idolized =
      (None, st\<lparr>ticks := Suc (ticks st), users := (users st)(user_id \<mapsto> ?a')\<rparr>)"
    by (simp add: add_card_new [OF u c n])
  show "\<exists>new a'. add_to_user_album st user_id [crd] idolized =
             (None, st\<lparr>ticks := Suc (ticks st), users := (users st)(user_id \<mapsto> a')\<rparr>)
           \<and> mset a' = mset a + {#new#}
           \<and> map fst new = [''id'', ''unidolized_count'', ''idolized_count'', ''time_aquired'']
           \<and> map_of new ''id'' = Some card_id
           \<and> map_of new ''time_aquired'' = Some (clock st (ticks st))"
    by (rule exI [of _ ?new], rule exI [of _ ?a']) (use run in simp)
next
  assume "users st user_id = Some a"
  then show "\<exists>a'. users (snd (add_to_user_album st user_id new_cards idolized)) user_id = Some a'
           \<and> mset (map stamp a) \<subseteq># mset (map stamp a')"
    by (rule add_to_user_album_stamps)
qed

theorem entry_fields_C6_witness:
  "(\<exists>new a'. add_to_user_album db_u1 ''u1'' [[(''_id'', 3)]] True =
               (None, db_u1\<lparr>ticks := 1, users := (users db_u1)(''u1'' \<mapsto> a')\<rparr>)
            \<and> mset a' = {#entry5, new#}
            \<and> map fst new = [''id'', ''unidolized_count'', ''idolized_count'', ''time_aquired'']
            \<and> map_of new ''time_aquired'' = Some 1000)
   \<and> (\<exists>a'. users (snd (add_to_user_album db_u1 ''u1'' [[(''_id'', 5)], [(''_id'', 5)]] True)) ''u1''
               = Some a'
            \<and> {#(Some 5, Some 990)#} \<subseteq># mset (map stamp a'))"
proof -
  note creation = entry_fields_C6 [THEN conjunct1, rule_format]
  note kept = entry_fields_C6 [THEN conjunct2, rule_format]
  have u: "users db_u1 ''u1'' = Some [entry5]"
    by (simp add: db_u1_def)
  have m3: "map_of [(''_id'', 3::int)] ''_id'' = Some 3"
    by simp
  have n3: "find (has_id 3) [entry5] = None"
    by (simp add: has_id_def entry5_def)
  have c: "clock db_u1 (ticks db_u1) = 1000" "Suc (ticks db_u1) = 1"
    by (simp_all add: db_u1_def)
  have s: "map stamp [entry5] = [(Some 5, Some 990)]"
    by (simp add: stamp_def entry5_def)
  from creation [OF conjI [OF u conjI [OF m3 n3]], of True]
  obtain new a' where
    r: "add_to_user_album db_u1 ''u1'' [[(''_id'', 3)]] True =
          (None, db_u1\<lparr>ticks := Suc (ticks db_u1), users := (users db_u1)(''u1'' \<mapsto> a')\<rparr>)"
    and m: "mset a' = mset [entry5] + {#new#}"
    and k: "map fst new = [''id'', ''unidolized_count'', ''idolized_count'', ''time_aquired'']"
    and t: "map_of new ''time_aquired'' = Some (clock db_u1 (ticks db_u1))"
    by (elim exE conjE) (rule that, assumption+)
  from r c have "add_to_user_album db_u1 ''u1'' [[(''_id'', 3)]] True =
          (None, db_u1\<lparr>ticks := 1, users := (users db_u1)(''u1'' \<mapsto> a')\<rparr>)"
    by simp
  moreover from m have "mset a' = {#entry5, new#}"
    by simp
  moreover from t c have "map_of new ''time_aquired'' = Some 1000"
    by simp
  ultimately have "\<exists>new a'. add_to_user_album db_u1 ''u1'' [[(''_id'', 3)]] True =
               (None, db_u1\<lparr>ticks := 1, users := (users db_u1)(''u1'' \<mapsto> a')\<rparr>)
            \<and> mset a' = {#entry5, new#}
            \<and> map fst new = [''id'', ''unidolized_count'', ''idolized_count'', ''time_aquired'']
            \<and> map_of new ''time_aquired'' = Some 1000"
    using k by (intro exI conjI)
  moreover have "\<exists>a'. users (snd (add_to_user_album db_u1 ''u1'' [[(''_id'', 5)], [(''_id'', 5)]] True)) ''u1''
               = Some a'
            \<and> {#(Some 5, Some 990)#} \<subseteq># mset (map stamp a')"
    using kept [OF u, of "[[(''_id'', 5)], [(''_id'', 5)]]" True] s by simp
  ultimately show ?thesis
    by blast
qed

text \<open>
  Claim C6 as stated names the timestamp field \<open>time_acquired\<close>. The entry created for card 5 in
  a fresh album has no field of that name.
\<close>

theorem entry_fields_C6_counterexample:
  "users (snd (add_to_user_album db_fresh ''u1'' [[(''_id'', 5)]] False)) ''u1'' =
     Some [[(''id'', 5), (''unidolized_count'', 1), (''idolized_count'', 0),
            (''time_aquired'', 1000)]]
   \<and> ''time_acquired'' \<notin> set (map fst [(''id'', 5::int), (''unidolized_count'', 1),
                                         (''idolized_count'', 0), (''time_aquired'', 1000)])"
  by (simp add: db_fresh_def add_card_def check_card_def write_card_def getitem_def user_has_card_def project_elemMatch_def
      push_sorted_def)

subsection \<open>Upserting a card\<close>

lemma upsert_card_run:
  assumes "card_ref < length h" and "map_of (h ! card_ref) ''id'' = Some k"
  shows "upsert_card h coll card_ref =
           (None, h @ [AList.delete ''id'' (AList.update ''_id'' k (h ! card_ref))],
            update_set_upsert coll k (AList.delete ''id'' (AList.update ''_id'' k (h ! card_ref))))"
  using assms
  by (simp add: upsert_card_def deepcopy_def getitem_def setitem_def delitem_def nth_append
      update_conv' delete_conv')

lemma upsert_card_no_id:
  assumes "card_ref < length h" and "map_of (h ! card_ref) ''id'' = None"
  shows "upsert_card h coll card_ref = (Some KeyError, h @ [h ! card_ref], coll)"
  using assms
  by (simp add: upsert_card_def deepcopy_def getitem_def nth_append)

text \<open>
  Claim C10. Whatever the card holds (with or without an \<open>id\<close>), after \<open>upsert_card\<close>
  the caller's dictionary is what it was, and so is every other object that was in the
  heap: the edits go to the copy.
\<close>

theorem upsert_card_frame_C10:
  assumes "card_ref < length h"
  shows "fst (snd (upsert_card h coll card_ref)) ! card_ref = h ! card_ref
         \<and> take (length h) (fst (snd (upsert_card h coll card_ref))) = h"
proof (cases "map_of (h ! card_ref) ''id''")
  case None
  with assms show ?thesis
    by (simp add: upsert_card_no_id nth_append)
next
  case (Some k)
  with assms show ?thesis
    by (simp add: upsert_card_run nth_append)
qed

theorem upsert_card_frame_C10_witness:
  "fst (snd (upsert_card heap_ex [] 0)) ! 0 = [(''id'', 1), (''rarity'', 10), (''attribute'', 7)]
   \<and> take (length heap_ex) (fst (snd (upsert_card heap_ex [] 0))) = heap_ex"
  using upsert_card_frame_C10 [of 0 heap_ex "[]"]
  by (simp add: heap_ex_def)

lemma has_key_fun: "has_key k = (\<lambda>d. map_of d ''_id'' = Some k)"
  by (simp add: fun_eq_iff has_key_def)

lemma distinct_find_filter:
  "distinct (map g xs) \<Longrightarrow> find (\<lambda>x. g x = v) xs = Some d \<Longrightarrow> filter (\<lambda>x. g x = v) xs = [d]"
proof (induction xs)
  case Nil
  then show ?case by simp
next
  case (Cons y ys)
  show ?case
  proof (cases "g y = v")
    case True
    with Cons.prems(2) have "d = y"
      by simp
    moreover from Cons.prems(1) have "g y \<notin> g ` set ys"
      by simp
    with True have "\<forall>x\<in>set ys. g x \<noteq> v"
      by (metis imageI)
    ultimately have "d = y" and "\<forall>x\<in>set ys. g x \<noteq> v"
      by simp_all
    with True show ?thesis
      by (simp add: filter_empty_conv)
  next
    case False
    with Cons show ?thesis by simp
  qed
qed

lemma filter_not_update_first:
  "(\<And>x. P x \<Longrightarrow> P (f x)) \<Longrightarrow>
   filter (\<lambda>x. \<not> P x) (update_first P f xs) = filter (\<lambda>x. \<not> P x) xs"
  by (induction xs) auto

lemma map_of_renamed:
  "map_of (AList.delete ''id'' (AList.update ''_id'' k c)) = ((map_of c)(''_id'' \<mapsto> k))(''id'' := None)"
  by (simp add: delete_conv' update_conv')

text \<open>
  Claim C1, as the code has it. For a card with an \<open>id\<close> field \<open>k\<close> and a collection with
  at most one document per \<open>_id\<close>, \<open>upsert_card\<close> leaves exactly one document \<open>d'\<close> with
  \<open>_id = k\<close>. Its fields are those of the document stored before under \<open>k\<close> (none when
  there was no such document), overwritten by the fields of the card with \<open>id\<close> renamed
  to \<open>_id\<close>: a stored field that the card does not set is kept. The other documents are
  untouched.
\<close>

theorem upsert_card_C1:
  assumes "card_ref < length h"
      and "map_of (h ! card_ref) ''id'' = Some k"
      and "unique_ids coll"
  shows "\<exists>h' coll' d'. upsert_card h coll card_ref = (None, h', coll')
           \<and> filter (has_key k) coll' = [d']
           \<and> map_of d' = (case find (has_key k) coll of None \<Rightarrow> Map.empty | Some d \<Rightarrow> map_of d)
                          ++ ((map_of (h ! card_ref))(''_id'' \<mapsto> k))(''id'' := None)
           \<and> filter (\<lambda>d. \<not> has_key k d) coll' = filter (\<lambda>d. \<not> has_key k d) coll
           \<and> unique_ids coll'"
proof -
  define c where "c = AList.delete ''id'' (AList.update ''_id'' k (h ! card_ref))"
  define m where "m = ((map_of (h ! card_ref))(''_id'' \<mapsto> k))(''id'' := None)"
  have mc: "map_of c = m"
    unfolding c_def m_def by (rule map_of_renamed)
  have key: "m ''_id'' = Some k"
    unfolding m_def by simp
  have run: "upsert_card h coll card_ref = (None, h @ [c], update_set_upsert coll k c)"
    unfolding c_def using assms(1,2) by (rule upsert_card_run)
  have keep: "has_key k (mongo_set d c)" for d
    by (simp add: has_key_def mongo_set_lookup mc key)
  have "\<exists>d'. filter (has_key k) (update_set_upsert coll k c) = [d']
           \<and> map_of d' = (case find (has_key k) coll of None \<Rightarrow> Map.empty | Some d \<Rightarrow> map_of d) ++ m
           \<and> filter (\<lambda>d. \<not> has_key k d) (update_set_upsert coll k c) = filter (\<lambda>d. \<not> has_key k d) coll
           \<and> unique_ids (update_set_upsert coll k c)"
  proof (cases "find (has_key k) coll")
    case None
    let ?new = "mongo_set [(''_id'', k)] c"
    have upd: "update_set_upsert coll k c = coll @ [?new]"
      by (simp only: update_set_upsert_def None option.case)
    from None have no: "filter (has_key k) coll = []"
      by (rule find_filter)
    have "map_of ?new = Map.empty ++ m"
      by (rule ext) (simp add: mongo_set_lookup mc map_add_def key split: option.splits)
    then have new: "map_of ?new = (case find (has_key k) coll of None \<Rightarrow> Map.empty | Some d \<Rightarrow> map_of d) ++ m"
      by (simp only: None option.case)
    have f1: "filter (has_key k) (coll @ [?new]) = [?new]"
      using no keep [of "[(''_id'', k)]"] by simp
    have f2: "filter (\<lambda>d. \<not> has_key k d) (coll @ [?new]) = filter (\<lambda>d. \<not> has_key k d) coll"
      using keep [of "[(''_id'', k)]"] by simp
    from None have "Some k \<notin> (\<lambda>d. map_of d ''_id'') ` set coll"
      by (auto simp: find_None_iff has_key_def)
    moreover from keep [of "[(''_id'', k)]"] have "map_of ?new ''_id'' = Some k"
      by (simp only: has_key_def)
    ultimately have u: "unique_ids (coll @ [?new])"
      using assms(3) by (simp add: unique_ids_def)
    from f1 new f2 u show ?thesis
      unfolding upd by (intro exI conjI)
  next
    case (Some d)
    let ?coll' = "update_first (has_key k) (\<lambda>d. mongo_set d c) coll"
    have upd: "update_set_upsert coll k c = ?coll'"
      by (simp only: update_set_upsert_def Some option.case)
    from assms(3) Some have one: "filter (has_key k) coll = [d]"
      unfolding has_key_fun unique_ids_def by (rule distinct_find_filter)
    then have f1: "filter (has_key k) ?coll' = [mongo_set d c]"
      using keep by (rule filter_update_first)
    have "map_of (mongo_set d c) = map_of d ++ m"
      by (simp only: mongo_set_lookup mc)
    then have new: "map_of (mongo_set d c) =
        (case find (has_key k) coll of None \<Rightarrow> Map.empty | Some d \<Rightarrow> map_of d) ++ m"
      by (simp only: Some option.case)
    have f2: "filter (\<lambda>d. \<not> has_key k d) ?coll' = filter (\<lambda>d. \<not> has_key k d) coll"
      using keep by (rule filter_not_update_first)
    have "map (\<lambda>d. map_of d ''_id'') ?coll' = map (\<lambda>d. map_of d ''_id'') coll"
      by (rule map_update_first) (simp add: has_key_def mongo_set_lookup mc key)
    with assms(3) have u: "unique_ids ?coll'"
      by (simp only: unique_ids_def)
    from f1 new f2 u show ?thesis
      unfolding upd by (intro exI conjI)
  qed
  then obtain d' where
    "filter (has_key k) (update_set_upsert coll k c) = [d']"
    "map_of d' = (case find (has_key k) coll of None \<Rightarrow> Map.empty | Some d \<Rightarrow> map_of d) ++ m"
    "filter (\<lambda>d. \<not> has_key k d) (update_set_upsert coll k c) = filter (\<lambda>d. \<not> has_key k d) coll"
    "unique_ids (update_set_upsert coll k c)"
    by (elim exE conjE) (rule that, assumption+)
  with run show ?thesis
    unfolding m_def by (intro exI conjI)
qed

theorem upsert_card_C1_witness:
  "\<exists>h' coll' d'. upsert_card heap_ex catalog_ex 1 = (None, h', coll')
      \<and> filter (has_key 1) coll' = [d']
      \<and> map_of d' ''rarity'' = Some 20
      \<and> map_of d' ''attribute'' = Some 7
      \<and> map_of d' ''_id'' = Some 1
      \<and> map_of d' ''id'' = None
      \<and> unique_ids coll'"
proof -
  have r: "1 < length heap_ex" and i: "map_of (heap_ex ! 1) ''id'' = Some 1"
    and u: "unique_ids catalog_ex"
    by (simp_all add: heap_ex_def catalog_ex_def unique_ids_def)
  have f: "find (has_key 1) catalog_ex = Some [(''_id'', 1), (''attribute'', 7), (''rarity'', 10)]"
    by (simp add: catalog_ex_def has_key_def)
  from upsert_card_C1 [OF r i u]
  obtain h' coll' d' where
    "upsert_card heap_ex catalog_ex 1 = (None, h', coll')"
    and "filter (has_key 1) coll' = [d']"
    and m: "map_of d' =
         (case find (has_key 1) catalog_ex of None \<Rightarrow> Map.empty | Some d \<Rightarrow> map_of d)
         ++ ((map_of (heap_ex ! 1))(''_id'' \<mapsto> 1))(''id'' := None)"
    and "unique_ids coll'"
    by (elim exE conjE) (rule that, assumption+)
  moreover have "map_of d' ''rarity'' = Some 20" "map_of d' ''attribute'' = Some 7"
    "map_of d' ''_id'' = Some 1" "map_of d' ''id'' = None"
    unfolding m f by (simp_all add: heap_ex_def map_add_def)
  ultimately show ?thesis
    by (intro exI conjI)
qed

text \<open>
  Claim C1 as stated says that no field of the previous document survives unless the
  new card sets it. Upserting \<open>{id: 1, rarity: 10, attribute: 7}\<close> and then \<open>{id: 1, rarity: 20}\<close>
  leaves \<open>attribute: 7\<close> in the stored document.
\<close>

theorem upsert_card_C1_counterexample:
  "upsert_card heap_ex [] 0 =
     (None, heap_ex @ [[(''rarity'', 10), (''attribute'', 7), (''_id'', 1)]], catalog_ex)
   \<and> upsert_card (heap_ex @ [[(''rarity'', 10), (''attribute'', 7), (''_id'', 1)]]) catalog_ex 1 =
     (None,
      heap_ex @ [[(''rarity'', 10), (''attribute'', 7), (''_id'', 1)], [(''rarity'', 20), (''_id'', 1)]],
      [[(''_id'', 1), (''attribute'', 7), (''rarity'', 20)]])
   \<and> map_of (heap_ex ! 1) ''attribute'' = None"
  by (simp add: heap_ex_def catalog_ex_def upsert_card_def deepcopy_def getitem_def setitem_def
      delitem_def update_set_upsert_def mongo_set_def has_key_def)

subsection \<open>Random cards\<close>

lemma length_remove_nth:
  "i < length xs \<Longrightarrow> length (take i xs @ drop (Suc i) xs) = length xs - 1"
  by simp

lemma mset_remove_nth:
  "i < length xs \<Longrightarrow> add_mset (xs ! i) (mset (take i xs @ drop (Suc i) xs)) = mset xs"
  by (metis append_take_drop_id mset.simps(2) mset_append union_mset_add_mset_right
      Cons_nth_drop_Suc)

lemma sample_Suc:
  "xs \<noteq> [] \<Longrightarrow>
   sample rnd (Suc n) xs =
     xs ! (rnd n mod length xs) #
     sample rnd n (take (rnd n mod length xs) xs @ drop (Suc (rnd n mod length xs)) xs)"
  by (simp add: Let_def)

lemma length_sample: "length (sample rnd n xs) = min n (length xs)"
proof (induction n arbitrary: xs)
  case 0
  then show ?case by simp
next
  case (Suc n)
  show ?case
  proof (cases "xs = []")
    case True
    then show ?thesis by simp
  next
    case False
    let ?i = "rnd n mod length xs"
    let ?ys = "take ?i xs @ drop (Suc ?i) xs"
    from False have i: "?i < length xs"
      by simp
    have "length (sample rnd (Suc n) xs) = Suc (length (sample rnd n ?ys))"
      by (simp only: sample_Suc [OF False] length_Cons)
    also have "\<dots> = Suc (min n (length xs - 1))"
      by (simp only: Suc.IH length_remove_nth [OF i])
    also have "\<dots> = min (Suc n) (length xs)"
      using False by (cases xs) simp_all
    finally show ?thesis .
  qed
qed

lemma mset_sample: "mset (sample rnd n xs) \<subseteq># mset xs"
proof (induction n arbitrary: xs)
  case 0
  then show ?case by simp
next
  case (Suc n)
  show ?case
  proof (cases "xs = []")
    case True
    then show ?thesis by simp
  next
    case False
    let ?i = "rnd n mod length xs"
    let ?ys = "take ?i xs @ drop (Suc ?i) xs"
    from False have i: "?i < length xs"
      by simp
    have "mset (sample rnd (Suc n) xs) = add_mset (xs ! ?i) (mset (sample rnd n ?ys))"
      by (simp only: sample_Suc [OF False] mset.simps)
    also have "\<dots> \<subseteq># add_mset (xs ! ?i) (mset ?ys)"
      by (simp only: mset_subset_eq_add_mset_cancel Suc.IH)
    also have "\<dots> = mset xs"
      by (rule mset_remove_nth [OF i])
    finally show ?thesis .
  qed
qed

lemma sample_all: "length xs \<le> n \<Longrightarrow> mset (sample rnd n xs) = mset xs"
proof (induction n arbitrary: xs)
  case 0
  then show ?case by simp
next
  case (Suc n)
  show ?case
  proof (cases "xs = []")
    case True
    then show ?thesis by simp
  next
    case False
    let ?i = "rnd n mod length xs"
    let ?ys = "take ?i xs @ drop (Suc ?i) xs"
    from False have i: "?i < length xs"
      by simp
    have "length ?ys = length xs - 1"
      by (rule length_remove_nth [OF i])
    with Suc.prems have "length ?ys \<le> n"
      by linarith
    then have rest: "mset (sample rnd n ?ys) = mset ?ys"
      by (rule Suc.IH)
    have "mset (sample rnd (Suc n) xs) = add_mset (xs ! ?i) (mset (sample rnd n ?ys))"
      by (simp only: sample_Suc [OF False] mset.simps)
    also have "\<dots> = add_mset (xs ! ?i) (mset ?ys)"
      by (simp only: rest)
    also have "\<dots> = mset xs"
      by (rule mset_remove_nth [OF i])
    finally show ?thesis .
  qed
qed

lemma get_random_cards_capped:
  assumes "0 \<le> cnt"
  shows "\<exists>cs. get_random_cards matches rnd coll filters cnt = Inr cs
           \<and> length cs \<le> nat cnt \<and> length cs \<le> 100
           \<and> mset cs \<subseteq># mset (filter (matches filters) coll)
           \<and> (\<forall>c\<in>set cs. matches filters c)"
proof -
  let ?s = "sample rnd (nat cnt) (filter (matches filters) coll)"
  have "mset (take 100 ?s) \<subseteq># mset ?s"
    by (metis append_take_drop_id mset_append mset_subset_eq_add_left)
  also have "\<dots> \<subseteq># mset (filter (matches filters) coll)"
    by (rule mset_sample)
  finally have sub: "mset (take 100 ?s) \<subseteq># mset (filter (matches filters) coll)" .
  then have "set (take 100 ?s) \<subseteq> set (filter (matches filters) coll)"
    by (metis set_mset_mono set_mset_mset)
  with sub assms show ?thesis
    by (auto simp: get_random_cards_def length_sample)
qed

lemma get_random_cards_all:
  assumes "0 \<le> cnt" and "length (filter (matches filters) coll) \<le> nat cnt"
      and "length (filter (matches filters) coll) \<le> 100"
  shows "\<exists>cs. get_random_cards matches rnd coll filters cnt = Inr cs
           \<and> mset cs = mset (filter (matches filters) coll)"
  using assms by (simp add: get_random_cards_def length_sample sample_all)

text \<open>
  Claim C5. The result never has more than \<open>cnt\<close> cards and holds only cards that match
  (\<open>get_random_cards_capped\<close>), and it holds all the matches when there are at most
  \<open>cnt\<close> and at most 100 of them (\<open>get_random_cards_all\<close>). Beyond 100 the last part
  fails, since \<open>to_list(length=100)\<close> cuts the cursor: with 101 matching cards and
  \<open>cnt = 102\<close> the result has 100 cards, whatever the random choices.
\<close>

theorem get_random_cards_cap_C5:
  "\<exists>cs. get_random_cards (\<lambda>f d. True) rnd catalog101 () 102 = Inr cs
      \<and> length cs = 100
      \<and> length (filter (\<lambda>d. True) catalog101) = 101"
  by (simp add: get_random_cards_def length_sample catalog101_def)

end
